theory Spec2Isabelle
  imports Complex_Main "HOL-Library.Sublist"
begin

section \<open>Strings, patterns and library calls\<close>


definition is_digit :: "char \<Rightarrow> bool" where
  "is_digit c = (c \<in> set ''0123456789'')"

definition isdigit :: "string \<Rightarrow> bool" where
  "isdigit s = (s \<noteq> [] \<and> list_all is_digit s)"

definition digit_val :: "char \<Rightarrow> nat" where
  "digit_val c = length (takeWhile (\<lambda>d. d \<noteq> c) ''0123456789'')"

text \<open>\<open>int(s)\<close> for a string of digits, and \<open>str(n)\<close>.\<close>

definition digits_to_nat :: "string \<Rightarrow> nat" where
  "digits_to_nat s = foldl (\<lambda>n c. 10 * n + digit_val c) 0 s"

fun str_nat :: "nat \<Rightarrow> string" where
  "str_nat n = (if n < 10 then [''0123456789'' ! n]
                else str_nat (n div 10) @ [''0123456789'' ! (n mod 10)])"

declare str_nat.simps [simp del]

definition str_int :: "int \<Rightarrow> string" where
  "str_int i = (if i < 0 then CHR ''-'' # str_nat (nat (- i)) else str_nat (nat i))"

definition lower_char :: "char \<Rightarrow> char" where
  "lower_char c =
     (case map_of (zip ''ABCDEFGHIJKLMNOPQRSTUVWXYZ'' ''abcdefghijklmnopqrstuvwxyz'') c of
        Some d \<Rightarrow> d
      | None \<Rightarrow> c)"

definition py_lower :: "string \<Rightarrow> string" where
  "py_lower s = map lower_char s"


text \<open>
  \<open>int(s)\<close> for an arbitrary ASCII string: surrounding whitespace is dropped, one sign is
  allowed, and the digits may be grouped by single underscores. \<open>None\<close> is \<open>ValueError\<close>,
  which the interpreter also raises when a decimal conversion, in either direction,
  involves more digits than its limit (4300 by default).
\<close>

definition int_max_str_digits :: nat where
  "int_max_str_digits = 4300"

definition is_space :: "char \<Rightarrow> bool" where
  "is_space c = (c \<in> set [CHR '' '', CHR 0x09, CHR 0x0A, CHR 0x0B, CHR 0x0C, CHR 0x0D,
                           CHR 0x1C, CHR 0x1D, CHR 0x1E, CHR 0x1F])"

definition py_strip :: "string \<Rightarrow> string" where
  "py_strip s = rev (dropWhile is_space (rev (dropWhile is_space s)))"

fun int_body_ok :: "string \<Rightarrow> bool" where
  "int_body_ok [] = False"
| "int_body_ok [c] = is_digit c"
| "int_body_ok (c # d # s) =
     (is_digit c \<and> (if d = CHR ''_'' then int_body_ok s else int_body_ok (d # s)))"

definition py_int :: "string \<Rightarrow> int option" where
  "py_int s =
     (let t = py_strip s;
          neg = (t \<noteq> [] \<and> hd t = CHR ''-'');
          body = (if t \<noteq> [] \<and> hd t \<in> set ''+-'' then tl t else t)
      in if int_body_ok body \<and> length (filter is_digit body) \<le> int_max_str_digits
         then Some ((if neg then - 1 else 1) * int (digits_to_nat (filter is_digit body)))
         else None)"

definition py_str :: "int \<Rightarrow> string option" where
  "py_str i =
     (if length (str_nat (nat \<bar>i\<bar>)) \<le> int_max_str_digits then Some (str_int i) else None)"

text \<open>
  The pagination module calls three built-ins on text that comes from the page or the URL:
  \<open>str.isdigit()\<close>, \<open>int(...)\<close> and \<open>str(...)\<close> of an integer (also behind
  \<open>str.format\<close>). \<open>isdigit\<close> accepts more than \<open>int\<close> converts (a superscript two is a
  digit and no integer), and the conversions raise \<open>ValueError\<close> beyond the digit limit. The
  module's functions take the three as a parameter, with \<open>None\<close> for \<open>ValueError\<close>, and the
  theorems hold for every choice of them. \<open>ascii_builtins\<close> is what they do on ASCII text.
\<close>

record builtins =
  str_isdigit :: "string \<Rightarrow> bool"
  int_of_str :: "string \<Rightarrow> int option"
  str_of_int :: "int \<Rightarrow> string option"

definition ascii_builtins :: builtins where
  "ascii_builtins = \<lparr>str_isdigit = isdigit, int_of_str = py_int, str_of_int = py_str\<rparr>"

subsection \<open>The regular expressions of the module\<close>

text \<open>
  The patterns of the module are sequences of four kinds of items: a literal, one character
  of a class, an optional character of a class, and the capture group \<open>(\d+)\<close>. A match
  at the start of a string gives the captured digits and the text after the match. \<open>\d+\<close>
  is greedy; in every pattern of the module it is followed by nothing or by a literal that
  starts with a non-digit, so giving digits back can never turn a failure into a match and
  the group is the whole run of digits.
\<close>

datatype rx = Lit string | Cls "char list" | OptCls "char list" | Digits

fun match_here :: "rx list \<Rightarrow> string \<Rightarrow> (string \<times> string) option" where
  "match_here [] s = Some ([], s)"
| "match_here (Lit l # p) s =
     (if prefix l s then match_here p (drop (length l) s) else None)"
| "match_here (Cls cs # p) s =
     (case s of
        [] \<Rightarrow> None
      | c # r \<Rightarrow> if c \<in> set cs then match_here p r else None)"
| "match_here (OptCls cs # p) s =
     (case s of
        [] \<Rightarrow> match_here p s
      | c # r \<Rightarrow>
          if c \<in> set cs
          then (case match_here p r of Some m \<Rightarrow> Some m | None \<Rightarrow> match_here p s)
          else match_here p s)"
| "match_here (Digits # p) s =
     (if takeWhile is_digit s = [] then None
      else (case match_here p (dropWhile is_digit s) of
              None \<Rightarrow> None
            | Some (g, r) \<Rightarrow> Some (takeWhile is_digit s, r)))"

text \<open>\<open>re.search(p, s)\<close>: group 1 of the leftmost match.\<close>

fun re_search :: "rx list \<Rightarrow> string \<Rightarrow> string option" where
  "re_search p [] = map_option fst (match_here p [])"
| "re_search p (c # s) =
     (case match_here p (c # s) of
        Some (g, r) \<Rightarrow> Some g
      | None \<Rightarrow> re_search p s)"

text \<open>
  \<open>re.sub(p, repl, s)\<close> with a replacement free of escapes: every match, left to right and
  not overlapping, is replaced. The patterns of the module match at least one character;
  the branch for an empty match (the replacement, then the character is copied) is kept
  for totality.
\<close>

function re_sub :: "rx list \<Rightarrow> string \<Rightarrow> string \<Rightarrow> string" where
  "re_sub p repl [] = []"
| "re_sub p repl (c # s) =
     (case match_here p (c # s) of
        None \<Rightarrow> c # re_sub p repl s
      | Some (g, r) \<Rightarrow>
          if length r < length (c # s) then repl @ re_sub p repl r
          else repl @ c # re_sub p repl s)"
  by pat_completeness auto
termination
  by (relation "measure (\<lambda>(p, repl, s). length s)") auto

subsection \<open>urllib\<close>

text \<open>
  \<open>urljoin\<close>, \<open>urlparse\<close>, \<open>ParseResult.geturl\<close> and \<open>parse_qs\<close> belong to the standard
  library. The module's functions take them as a parameter, and the theorems hold for
  every choice of them. \<open>urlparse\<close> returns \<open>None\<close> where the library raises (the callers
  catch it). \<open>urljoin\<close> is called outside any \<open>try\<close>: where it raises, the caller raises
  with it and returns nothing, so it is taken as a total function. \<open>parse_qs\<close> gives a
  dictionary from names to lists of values, kept as an association list in insertion order.
\<close>

record parsed_url =
  scheme :: string
  netloc :: string
  path :: string
  params :: string
  query :: string
  fragment :: string

record urllib =
  urljoin :: "string \<Rightarrow> string \<Rightarrow> string"
  urlparse :: "string \<Rightarrow> parsed_url option"
  geturl :: "parsed_url \<Rightarrow> string"
  parse_qs :: "string \<Rightarrow> (string \<times> string list) list"

text \<open>
  The library on the references the examples below use: an absolute path with an optional
  query (\<open>/a/b?k=v\<close>), without scheme, authority, parameters, fragment, escapes or dot
  segments. There \<open>urlparse\<close> splits at the first \<open>?\<close>, \<open>geturl\<close> puts the parts back,
  \<open>parse_qs\<close> splits at \<open>&\<close> and the first \<open>=\<close> and drops blank values, and \<open>urljoin\<close>
  of such a reference onto such a base is the reference.
\<close>

fun split_on :: "char \<Rightarrow> string \<Rightarrow> string list" where
  "split_on d [] = [[]]"
| "split_on d (c # s) =
     (if c = d then [] # split_on d s
      else (case split_on d s of [] \<Rightarrow> [[c]] | w # ws \<Rightarrow> (c # w) # ws))"

fun add_value :: "(string \<times> string list) list \<Rightarrow> string \<Rightarrow> string \<Rightarrow> (string \<times> string list) list" where
  "add_value [] k v = [(k, [v])]"
| "add_value ((k', vs) # d) k v =
     (if k' = k then (k', vs @ [v]) # d else (k', vs) # add_value d k v)"

definition plain_parse_qs :: "string \<Rightarrow> (string \<times> string list) list" where
  "plain_parse_qs q =
     foldl (\<lambda>d f. let k = takeWhile (\<lambda>c. c \<noteq> CHR ''='') f;
                       v = drop 1 (dropWhile (\<lambda>c. c \<noteq> CHR ''='') f)
                   in if v = [] then d else add_value d k v)
           [] (split_on CHR ''&'' q)"

definition plain_urllib :: urllib where
  "plain_urllib =
     \<lparr>urljoin = (\<lambda>base url. if url = [] then base else url),
      urlparse = (\<lambda>url. Some \<lparr>scheme = [], netloc = [],
                               path = takeWhile (\<lambda>c. c \<noteq> CHR ''?'') url, params = [],
                               query = drop 1 (dropWhile (\<lambda>c. c \<noteq> CHR ''?'') url),
                               fragment = []\<rparr>),
      geturl = (\<lambda>p. path p @ (if query p = [] then [] else CHR ''?'' # query p)),
      parse_qs = plain_parse_qs\<rparr>"

section \<open>Throttle state and backoff engine (src/utils/anti\_bot.py)\<close>

text \<open>
  The class \<open>AntiBot\<close> holds the process-wide throttle state. Its float fields are
  modelled as rationals. The two nondeterministic inputs of a call are made explicit
  arguments: the draw \<open>u\<close> of \<open>random.random()\<close> behind \<open>random.uniform\<close>, and the
  readings of \<open>time.time()\<close> (the sync variant reads the clock twice, \<open>t1\<close> for
  \<open>elapsed\<close> and \<open>t2\<close> for the new \<open>start_time\<close>). Each function returns the updated
  state together with the duration it sleeps for.
\<close>

record AntiBot =
  request_count :: int
  start_time :: rat
  backoff_factor :: rat
  max_backoff :: rat

definition AntiBot_init :: "rat \<Rightarrow> AntiBot" where
  "AntiBot_init now =
     \<lparr>request_count = 0, start_time = now, backoff_factor = 1, max_backoff = 30\<rparr>"

definition reset_backoff :: "AntiBot \<Rightarrow> AntiBot" where
  "reset_backoff s = s\<lparr>backoff_factor := 1\<rparr>"

text \<open>\<open>random.uniform(a, b)\<close> is \<open>a + (b - a) * random()\<close>.\<close>

definition uniform :: "rat \<Rightarrow> rat \<Rightarrow> rat \<Rightarrow> rat" where
  "uniform a b u = a + (b - a) * u"

definition backoff :: "AntiBot \<Rightarrow> bool \<Rightarrow> rat \<Rightarrow> rat \<Rightarrow> rat \<Rightarrow> AntiBot \<times> rat" where
  "backoff s increase u t1 t2 =
     (let (s1, sleep_time) =
            (if increase then
               (let s' = s\<lparr>backoff_factor := min (backoff_factor s * (3 / 2)) (max_backoff s)\<rparr>
                in (s', uniform (backoff_factor s' * 2) (backoff_factor s' * 4) u))
             else (reset_backoff s, uniform 1 3 u));
          s2 = s1\<lparr>request_count := request_count s1 + 1\<rparr>;
          elapsed = t1 - start_time s2
      in if elapsed < 60 \<and> request_count s2 > 10
         then (s2\<lparr>request_count := 0, start_time := t2\<rparr>, sleep_time + (60 - elapsed))
         else (s2, sleep_time))"

definition async_backoff :: "AntiBot \<Rightarrow> bool \<Rightarrow> rat \<Rightarrow> AntiBot \<times> rat" where
  "async_backoff s increase u =
     (if increase then
        (let s' = s\<lparr>backoff_factor := min (backoff_factor s * (3 / 2)) (max_backoff s)\<rparr>
         in (s', uniform (backoff_factor s' * 2) (backoff_factor s' * 4) u))
      else (reset_backoff s, uniform 1 3 u))"

text \<open>
  A call to the engine: which variant, the \<open>increase\<close> flag, and the inputs it reads.
  \<open>run_calls\<close> feeds a sequence of calls to the shared state, oldest first.
\<close>

datatype call = Sync bool rat rat rat | Async bool rat

fun call_increase :: "call \<Rightarrow> bool" where
  "call_increase (Sync increase u t1 t2) = increase"
| "call_increase (Async increase u) = increase"

fun call_step :: "AntiBot \<Rightarrow> call \<Rightarrow> AntiBot" where
  "call_step s (Sync increase u t1 t2) = fst (backoff s increase u t1 t2)"
| "call_step s (Async increase u) = fst (async_backoff s increase u)"

definition run_calls :: "AntiBot \<Rightarrow> call list \<Rightarrow> AntiBot" where
  "run_calls s cs = foldl call_step s cs"

text \<open>
  The factor only ever takes the values \<open>(3/2)^k\<close> for \<open>k \<le> 8\<close> and \<open>30\<close>. All of them
  are dyadic rationals with numerator below \<open>2^13\<close>, so the source's binary floating-point
  arithmetic on \<open>backoff_factor\<close> is exact and agrees with the rational model.
\<close>

definition factor_values :: "rat set" where
  "factor_values = {1, 3/2, 9/4, 27/8, 81/16, 243/32, 729/64, 2187/128, 6561/256, 30}"

text \<open>
  The delay the branch on \<open>increase\<close> computes, before the rolling-window check: drawn from
  \<open>[2f, 4f]\<close> for the updated factor \<open>f\<close> after a failure, from \<open>[1, 3]\<close> after a success.
\<close>

definition branch_delay :: "AntiBot \<Rightarrow> bool \<Rightarrow> rat \<Rightarrow> rat" where
  "branch_delay s increase u =
     (if increase
      then uniform (min (backoff_factor s * (3 / 2)) (max_backoff s) * 2)
                   (min (backoff_factor s * (3 / 2)) (max_backoff s) * 4) u
      else uniform 1 3 u)"

text \<open>
  The inputs of one sync call, and the state after a run of sync calls, oldest first.
\<close>

record sync_call =
  increase :: bool
  draw :: rat
  clock1 :: rat
  clock2 :: rat

definition backoff_call :: "AntiBot \<Rightarrow> sync_call \<Rightarrow> AntiBot \<times> rat" where
  "backoff_call s c = backoff s (increase c) (draw c) (clock1 c) (clock2 c)"

fun backoff_seq :: "AntiBot \<Rightarrow> sync_call list \<Rightarrow> AntiBot" where
  "backoff_seq s [] = s"
| "backoff_seq s (c # cs) = backoff_seq (fst (backoff_call s c)) cs"

definition ten_calls :: "sync_call list" where
  "ten_calls = replicate 10 \<lparr>increase = False, draw = 0, clock1 = 5, clock2 = 5\<rparr>"

subsection \<open>Detection heuristics\<close>





section \<open>Pagination resolver (src/utils/pagination.py)\<close>

text \<open>
  The parsed page is used through selector lookup only. \<open>soup.select_one(sel)\<close> is the
  page applied to the selector; an element carries its attributes and, for
  \<open>find_all('a', href=True)\<close>, its anchors in document order, each with its \<open>href\<close> and
  the text \<open>get_text(strip=True)\<close> gives. A tag is always truthy, so \<open>if element:\<close> tests
  for \<open>None\<close> only.
\<close>

record link =
  href :: string
  link_text :: string

record element =
  attrs :: "(string \<times> string) list"
  links :: "link list"

type_synonym soup = "string \<Rightarrow> element option"

definition element_get :: "element \<Rightarrow> string \<Rightarrow> string option" where
  "element_get e a = map_of (attrs e) a"

subsection \<open>\<open>_find_next_button\<close>\<close>

definition next_button_selectors :: "string list" where
  "next_button_selectors =
     [''li.next a'', ''.next a'', ''a.next'', ''.pagination .next'', ''.pager-next a'',
      ''.next-page'', ''[rel='' @ [CHR 0x27] @ ''next'' @ [CHR 0x27] @ '']'',
      ''a[aria-label*='' @ [CHR 0x27] @ ''next'' @ [CHR 0x27] @ '']'',
      ''a[title*='' @ [CHR 0x27] @ ''next'' @ [CHR 0x27] @ '']'',
      ''.pagination-next a'']"

fun first_href :: "soup \<Rightarrow> string list \<Rightarrow> string option" where
  "first_href soup [] = None"
| "first_href soup (selector # rest) =
     (case soup selector of
        None \<Rightarrow> first_href soup rest
      | Some element \<Rightarrow>
          (case element_get element ''href'' of
             None \<Rightarrow> first_href soup rest
           | Some h \<Rightarrow> if h \<noteq> [] then Some h else first_href soup rest))"

definition find_next_button :: "soup \<Rightarrow> string option" where
  "find_next_button soup = first_href soup next_button_selectors"

subsection \<open>\<open>_extract_page_number\<close>\<close>

text \<open>
  The first name of the list that is a key of the dictionary and whose first value parses
  as an integer; a missing first value (\<open>IndexError\<close>) or a value that is no integer
  (\<open>ValueError\<close>) moves on to the next name.
\<close>

fun first_int_param :: "builtins \<Rightarrow> (string \<times> string list) list \<Rightarrow> string list \<Rightarrow> int option" where
  "first_int_param py query_params [] = None"
| "first_int_param py query_params (param # rest) =
     (case map_of query_params param of
        None \<Rightarrow> first_int_param py query_params rest
      | Some [] \<Rightarrow> first_int_param py query_params rest
      | Some (v # vs) \<Rightarrow>
          (case int_of_str py v of
             None \<Rightarrow> first_int_param py query_params rest
           | Some n \<Rightarrow> Some n))"

definition page_number_pattern :: "rx list" where
  "page_number_pattern = [Lit ''/page'', OptCls ''-_/'', Digits]"

text \<open>
  A \<open>ValueError\<close> of \<open>int(path_match.group(1))\<close> and an error of \<open>urlparse\<close> are caught by
  the outer \<open>except\<close>, after which the function returns \<open>None\<close>.
\<close>

definition extract_page_number :: "builtins \<Rightarrow> urllib \<Rightarrow> string \<Rightarrow> int option" where
  "extract_page_number py lib url =
     (case re_search page_number_pattern url of
        Some g \<Rightarrow> int_of_str py g
      | None \<Rightarrow>
          (case urlparse lib url of
             None \<Rightarrow> None
           | Some parsed \<Rightarrow>
               first_int_param py (parse_qs lib (query parsed)) [''page'', ''p'', ''pagenum'']))"

subsection \<open>\<open>_find_numbered_next\<close>\<close>

definition next_words :: "string list" where
  "next_words = [''next'', ''>'', [CHR 0xE2, CHR 0x86, CHR 0x92]]"

definition pagination_selectors :: "string list" where
  "pagination_selectors =
     [''.pagination'', ''.pager'', ''.page-numbers'', ''.paginate'', ''.page-nav'',
      ''.pagination-wrapper'']"

text \<open>
  The inner loop over the anchors of one container: it returns an \<open>href\<close>, or runs to its
  end, or \<open>int(link_text)\<close> raises on a text that \<open>isdigit\<close> accepted. \<open>current_page\<close>
  is tested for truthiness, so both \<open>None\<close> and \<open>0\<close> switch the numbered branch off.
\<close>

datatype scan = Found string | Raised | Exhausted

fun scan_links :: "builtins \<Rightarrow> int option \<Rightarrow> link list \<Rightarrow> scan" where
  "scan_links py current_page [] = Exhausted"
| "scan_links py current_page (l # rest) =
     (if str_isdigit py (link_text l) then
        (case int_of_str py (link_text l) of
           None \<Rightarrow> Raised
         | Some page_num \<Rightarrow>
             if current_page \<noteq> None \<and> current_page \<noteq> Some 0 \<and>
                page_num = the current_page + 1
             then Found (href l)
             else scan_links py current_page rest)
      else if py_lower (link_text l) \<in> set next_words then Found (href l)
      else scan_links py current_page rest)"



text \<open>
  The loop over the selectors. The whole body is inside one \<open>try\<close>: an error in the inner
  loop ends the function with \<open>None\<close>.
\<close>

fun scan_containers :: "builtins \<Rightarrow> soup \<Rightarrow> int option \<Rightarrow> string list \<Rightarrow> string option" where
  "scan_containers py soup current_page [] = None"
| "scan_containers py soup current_page (selector # rest) =
     (case soup selector of
        None \<Rightarrow> scan_containers py soup current_page rest
      | Some pagination \<Rightarrow>
          (case scan_links py current_page (links pagination) of
             Found h \<Rightarrow> Some h
           | Raised \<Rightarrow> None
           | Exhausted \<Rightarrow> scan_containers py soup current_page rest))"

definition find_numbered_next :: "builtins \<Rightarrow> urllib \<Rightarrow> soup \<Rightarrow> string \<Rightarrow> string option" where
  "find_numbered_next py lib soup current_url =
     scan_containers py soup (extract_page_number py lib current_url) pagination_selectors"

subsection \<open>\<open>_find_load_more\<close>\<close>

definition load_more_selectors :: "string list" where
  "load_more_selectors =
     [''.load-more'', ''.show-more'', ''.view-more'', ''[data-next-url]'',
      ''[data-load-more]'', ''.infinite-scroll'']"

fun first_attr :: "element \<Rightarrow> string list \<Rightarrow> string option" where
  "first_attr e [] = None"
| "first_attr e (a # rest) =
     (case element_get e a of
        None \<Rightarrow> first_attr e rest
      | Some url \<Rightarrow> if url \<noteq> [] then Some url else first_attr e rest)"

fun first_load_more :: "soup \<Rightarrow> string list \<Rightarrow> string option" where
  "first_load_more soup [] = None"
| "first_load_more soup (selector # rest) =
     (case soup selector of
        None \<Rightarrow> first_load_more soup rest
      | Some e \<Rightarrow>
          (case first_attr e [''data-next-url'', ''data-load-more'', ''data-url'', ''href''] of
             Some url \<Rightarrow> Some url
           | None \<Rightarrow> first_load_more soup rest))"

definition find_load_more :: "soup \<Rightarrow> string option" where
  "find_load_more soup = first_load_more soup load_more_selectors"

subsection \<open>\<open>_construct_next_page_url\<close>\<close>

text \<open>
  Each path pattern comes with the two halves of its replacement template around \<open>{}\<close>.
\<close>

definition path_patterns :: "(rx list \<times> string \<times> string) list" where
  "path_patterns =
     [([Lit ''/page'', Cls ''-_/'', Digits], ''/page-'', ''''),
      ([Lit ''/page'', Cls ''-_/'', Digits, Lit ''/''], ''/page-'', ''/''),
      ([Lit ''page'', Cls ''-_'', Digits, Lit ''.html''], ''page-'', ''.html''),
      ([Lit ''p'', Digits, Lit ''.html''], ''p'', ''.html'')]"

text \<open>
  The loop over the path patterns: no pattern matches, or the first pattern that matches
  gives the new path, or converting the number raises \<open>ValueError\<close> (\<open>int\<close> of the group,
  or \<open>str\<close> of its successor inside \<open>format\<close>).
\<close>

datatype rewrite = NoMatch | ConversionError | NewPath string

fun rewrite_path :: "builtins \<Rightarrow> (rx list \<times> string \<times> string) list \<Rightarrow> string \<Rightarrow> rewrite" where
  "rewrite_path py [] p = NoMatch"
| "rewrite_path py ((pattern, before, after) # rest) p =
     (case re_search pattern p of
        None \<Rightarrow> rewrite_path py rest p
      | Some g \<Rightarrow>
          (case int_of_str py g of
             None \<Rightarrow> ConversionError
           | Some current_page \<Rightarrow>
               (case str_of_int py (current_page + 1) of
                  None \<Rightarrow> ConversionError
                | Some next_page \<Rightarrow> NewPath (re_sub pattern (before @ next_page @ after) p))))"

text \<open>The positions of a string at which a pattern matches.\<close>

definition occurrences :: "rx list \<Rightarrow> string \<Rightarrow> nat list" where
  "occurrences pattern s =
     filter (\<lambda>i. match_here pattern (drop i s) \<noteq> None) [0 ..< Suc (length s)]"

text \<open>
  The query fallback. The dictionary is updated in place before the new query is joined,
  and joining reads the first value of every entry: an entry with no value raises
  \<open>IndexError\<close>, which moves on to the next name with the dictionary already changed.
\<close>

fun dict_set :: "(string \<times> string list) list \<Rightarrow> string \<Rightarrow> string list \<Rightarrow> (string \<times> string list) list" where
  "dict_set [] k v = [(k, v)]"
| "dict_set ((k', v') # d) k v = (if k' = k then (k, v) # d else (k', v') # dict_set d k v)"

fun join_query :: "(string \<times> string list) list \<Rightarrow> string option" where
  "join_query [] = Some []"
| "join_query ((k, []) # d) = None"
| "join_query ((k, v # vs) # d) =
     (case join_query d of
        None \<Rightarrow> None
      | Some q \<Rightarrow> Some (k @ ''='' @ v @ (if d = [] then [] else ''&'' @ q)))"

fun bump_query :: "builtins \<Rightarrow> urllib \<Rightarrow> parsed_url \<Rightarrow> (string \<times> string list) list \<Rightarrow> string list \<Rightarrow> string option" where
  "bump_query py lib parsed query_params [] = None"
| "bump_query py lib parsed query_params (param # rest) =
     (case map_of query_params param of
        None \<Rightarrow> bump_query py lib parsed query_params rest
      | Some [] \<Rightarrow> bump_query py lib parsed query_params rest
      | Some (v # vs) \<Rightarrow>
          (case int_of_str py v of
             None \<Rightarrow> bump_query py lib parsed query_params rest
           | Some current_page \<Rightarrow>
               (case str_of_int py (current_page + 1) of
                  None \<Rightarrow> bump_query py lib parsed query_params rest
                | Some next_page \<Rightarrow>
                    (case join_query (dict_set query_params param [next_page]) of
                       None \<Rightarrow>
                         bump_query py lib parsed (dict_set query_params param [next_page]) rest
                     | Some new_query \<Rightarrow> Some (geturl lib (parsed\<lparr>query := new_query\<rparr>))))))"

text \<open>
  Every error inside the function is caught by its outer \<open>except\<close>, after which it returns
  \<open>None\<close>: an error of \<open>urlparse\<close>, and a conversion error in the path branch.
\<close>

definition construct_next_page_url :: "builtins \<Rightarrow> urllib \<Rightarrow> string \<Rightarrow> string option" where
  "construct_next_page_url py lib current_url =
     (case urlparse lib current_url of
        None \<Rightarrow> None
      | Some parsed \<Rightarrow>
          (case rewrite_path py path_patterns (path parsed) of
             NewPath new_path \<Rightarrow> Some (geturl lib (parsed\<lparr>path := new_path\<rparr>))
           | ConversionError \<Rightarrow> None
           | NoMatch \<Rightarrow>
               bump_query py lib parsed (parse_qs lib (query parsed))
                 [''page'', ''p'', ''pagenum'', ''offset'', ''start'']))"

subsection \<open>\<open>get_next_page\<close>\<close>

text \<open>
  One of the four blocks of \<open>get_next_page\<close>: a candidate that is not \<open>None\<close> and not empty
  is joined onto the current URL, and counts when the joined URL is not yet visited.
  \<open>get_next_page\<close> returns its result and the updated \<open>visited_urls\<close>.
\<close>

definition fresh_url :: "urllib \<Rightarrow> string \<Rightarrow> string set \<Rightarrow> string option \<Rightarrow> string option" where
  "fresh_url lib current_url visited_urls next_url =
     (case next_url of
        None \<Rightarrow> None
      | Some u \<Rightarrow>
          if u = [] then None
          else if urljoin lib current_url u \<notin> visited_urls
               then Some (urljoin lib current_url u)
               else None)"

definition get_next_page ::
  "builtins \<Rightarrow> urllib \<Rightarrow> soup \<Rightarrow> string \<Rightarrow> string set \<Rightarrow> string option \<times> string set" where
  "get_next_page py lib soup current_url visited_urls =
     (case fresh_url lib current_url visited_urls (find_next_button soup) of
        Some full_url \<Rightarrow> (Some full_url, insert full_url visited_urls)
      | None \<Rightarrow>
     (case fresh_url lib current_url visited_urls (find_numbered_next py lib soup current_url) of
        Some full_url \<Rightarrow> (Some full_url, insert full_url visited_urls)
      | None \<Rightarrow>
     (case fresh_url lib current_url visited_urls (find_load_more soup) of
        Some full_url \<Rightarrow> (Some full_url, insert full_url visited_urls)
      | None \<Rightarrow>
     (case fresh_url lib current_url visited_urls (construct_next_page_url py lib current_url) of
        Some full_url \<Rightarrow> (Some full_url, insert full_url visited_urls)
      | None \<Rightarrow> (None, visited_urls)))))"

subsection \<open>Example pages\<close>

text \<open>
  A page whose only pagination is a "next" button; a page whose \<open>.pagination\<close> container
  has the anchors 1, 2, 3, next in this order; and a page where the \<open>next\<close> anchor comes
  first.
\<close>

definition next_button_page :: soup where
  "next_button_page =
     (\<lambda>selector. if selector = ''li.next a''
                 then Some \<lparr>attrs = [(''href'', ''/catalogue/page-2.html'')], links = []\<rparr>
                 else None)"

definition numbered_page :: soup where
  "numbered_page =
     (\<lambda>selector. if selector = ''.pagination''
                 then Some \<lparr>attrs = [(''class'', ''pagination'')],
                            links = [\<lparr>href = ''/catalogue/page-1'', link_text = ''1''\<rparr>,
                                     \<lparr>href = ''/catalogue/page-2'', link_text = ''2''\<rparr>,
                                     \<lparr>href = ''/catalogue/page-3'', link_text = ''3''\<rparr>,
                                     \<lparr>href = ''/catalogue/following'', link_text = ''next''\<rparr>]\<rparr>
                 else None)"





section \<open>Crawl loop (src/scrapers/static\_scraper.py)\<close>

text \<open>
  A fetched page is used through three lookups: the \<open>article.product_pod\<close> items, and the
  \<open>li.next > a\<close> anchor with its \<open>href\<close>. Of an item the loop reads the attributes of
  \<open>item.h3.a\<close> (\<open>None\<close> when \<open>h3\<close> or its anchor is missing, where the source raises
  \<open>AttributeError\<close>) and the text of \<open>p.price_color\<close>.
\<close>

record item =
  anchor :: "(string \<times> string) list option"
  price_el :: "string option"

record product =
  product_name :: string
  product_price :: string
  product_link :: string

record page =
  items :: "item list"
  next_button :: "string option option"

datatype error = AttributeError

text \<open>
  \<open>session.get\<close> raises (\<open>TransportError\<close>) or returns a response with a status and a
  body. What it returns may change from one request to the next, so the environment is a
  function of the number of requests made before and of the URL. \<open>raise_for_status\<close> raises
  for a status from 400 to 599.
\<close>

datatype response = TransportError | Response int page

type_synonym fetcher = "nat \<Rightarrow> string \<Rightarrow> response"

definition raise_for_status :: "int \<Rightarrow> bool" where
  "raise_for_status status = (400 \<le> status \<and> status < 600)"

text \<open>The effects of the loop, in order: requests and sleeps.\<close>

datatype event = Fetch string | Sleep rat

fun fetches :: "event list \<Rightarrow> string list" where
  "fetches [] = []"
| "fetches (Fetch u # es) = u # fetches es"
| "fetches (Sleep d # es) = fetches es"

definition base_url :: string where
  "base_url = ''https://books.toscrape.com''"

definition REQUEST_DELAY :: rat where
  "REQUEST_DELAY = 3 / 2"

definition dict_get :: "(string \<times> string) list \<Rightarrow> string \<Rightarrow> string \<Rightarrow> string" where
  "dict_get d k dflt = (case map_of d k of None \<Rightarrow> dflt | Some v \<Rightarrow> v)"

definition extract_product :: "urllib \<Rightarrow> string \<Rightarrow> item \<Rightarrow> error + product" where
  "extract_product lib current_url it =
     (case anchor it of
        None \<Rightarrow> Inl AttributeError
      | Some a \<Rightarrow>
          Inr \<lparr>product_name = py_strip (dict_get a ''title'' []),
               product_price = (case price_el it of None \<Rightarrow> [] | Some t \<Rightarrow> py_strip t),
               product_link =
                 (if prefix ''http'' (dict_get a ''href'' []) then dict_get a ''href'' []
                  else urljoin lib current_url (dict_get a ''href'' []))\<rparr>)"

text \<open>The loop over the items of one page, with its \<open>break\<close> at the maximum.\<close>

fun collect_items :: "urllib \<Rightarrow> string \<Rightarrow> int \<Rightarrow> item list \<Rightarrow> product list \<Rightarrow> error + product list" where
  "collect_items lib current_url max_products [] products = Inr products"
| "collect_items lib current_url max_products (it # rest) products =
     (if max_products \<noteq> 0 \<and> int (length products) \<ge> max_products then Inr products
      else (case extract_product lib current_url it of
              Inl e \<Rightarrow> Inl e
            | Inr p \<Rightarrow> collect_items lib current_url max_products rest (products @ [p])))"

text \<open>
  The \<open>while current_url:\<close> loop. It need not end (a page may link to itself), so it runs
  on fuel: one unit per test of the loop condition, \<open>None\<close> when the fuel runs out. The
  result is the exception that escaped or the products returned, with the trace of effects.
\<close>

fun scrape_loop ::
  "nat \<Rightarrow> urllib \<Rightarrow> fetcher \<Rightarrow> int \<Rightarrow> string option \<Rightarrow> product list \<Rightarrow> event list
     \<Rightarrow> ((error + product list) \<times> event list) option" where
  "scrape_loop 0 lib fetch max_products current_url products trace = None"
| "scrape_loop (Suc fuel) lib fetch max_products current_url products trace =
     (case current_url of
        None \<Rightarrow> Some (Inr products, trace)
      | Some url \<Rightarrow>
          if url = [] then Some (Inr products, trace)
          else
            (case fetch (length (fetches trace)) url of
               TransportError \<Rightarrow> Some (Inr products, trace @ [Fetch url])
             | Response status soup \<Rightarrow>
                 if raise_for_status status then Some (Inr products, trace @ [Fetch url])
                 else
                   (case collect_items lib url max_products (items soup) products of
                      Inl e \<Rightarrow> Some (Inl e, trace @ [Fetch url])
                    | Inr products' \<Rightarrow>
                        if max_products \<noteq> 0 \<and> int (length products') \<ge> max_products
                        then Some (Inr products', trace @ [Fetch url])
                        else
                          scrape_loop fuel lib fetch max_products
                            (case next_button soup of
                               None \<Rightarrow> None
                             | Some None \<Rightarrow> Some url
                             | Some (Some next_href) \<Rightarrow> Some (urljoin lib url next_href))
                            products'
                            (trace @ [Fetch url, Sleep REQUEST_DELAY]))))"

definition scrape_static ::
  "nat \<Rightarrow> urllib \<Rightarrow> fetcher \<Rightarrow> string \<Rightarrow> int \<Rightarrow> ((error + product list) \<times> event list) option" where
  "scrape_static fuel lib fetch url max_products =
     scrape_loop fuel lib fetch max_products (Some (if url = [] then base_url else url)) [] []"

subsection \<open>Example sites\<close>

text \<open>
  A book item, a page of three books with a next link, and two environments: a site of
  three such pages, and a server that answers 500 to the first request and serves the page
  from the second request on.
\<close>

definition book :: "string \<Rightarrow> item" where
  "book t = \<lparr>anchor = Some [(''href'', ''/catalogue/'' @ t), (''title'', t)],
            price_el = Some ''10.00''\<rparr>"

definition three_books :: "string \<Rightarrow> string option \<Rightarrow> page" where
  "three_books tag next_href =
     \<lparr>items = [book (tag @ ''a''), book (tag @ ''b''), book (tag @ ''c'')],
      next_button = (case next_href of None \<Rightarrow> None | Some h \<Rightarrow> Some (Some h))\<rparr>"

definition three_page_site :: fetcher where
  "three_page_site k url =
     (if url = ''/catalogue/page-1.html'' then Response 200 (three_books ''1'' (Some ''/catalogue/page-2.html''))
      else if url = ''/catalogue/page-2.html'' then Response 200 (three_books ''2'' (Some ''/catalogue/page-3.html''))
      else if url = ''/catalogue/page-3.html'' then Response 200 (three_books ''3'' None)
      else Response 404 \<lparr>items = [], next_button = None\<rparr>)"

definition recovering_site :: fetcher where
  "recovering_site k url =
     (if k = 0 then Response 500 \<lparr>items = [], next_button = None\<rparr>
      else Response 200 (three_books ''1'' None))"

section \<open>Backoff engine: invariants of the throttle state\<close>

lemma call_step_max_backoff: "max_backoff (call_step s c) = max_backoff s"
  by (cases c) (simp_all add: backoff_def async_backoff_def reset_backoff_def Let_def)

lemma call_step_backoff_factor:
  "backoff_factor (call_step s c) =
     (if call_increase c then min (backoff_factor s * (3 / 2)) (max_backoff s) else 1)"
  by (cases c) (simp_all add: backoff_def async_backoff_def reset_backoff_def Let_def)

lemma run_calls_snoc: "run_calls s (cs @ [c]) = call_step (run_calls s cs) c"
  by (simp add: run_calls_def)

lemma run_calls_max_backoff: "max_backoff (run_calls (AntiBot_init t0) cs) = 30"
proof (induction cs rule: rev_induct)
  case Nil
  show ?case by (simp add: run_calls_def AntiBot_init_def)
next
  case (snoc c cs)
  then show ?case by (simp add: run_calls_snoc call_step_max_backoff)
qed

lemma run_calls_factor_range:
  "1 \<le> backoff_factor (run_calls (AntiBot_init t0) cs) \<and>
   backoff_factor (run_calls (AntiBot_init t0) cs) \<le> 30"
proof (induction cs rule: rev_induct)
  case Nil
  show ?case by (simp add: run_calls_def AntiBot_init_def)
next
  case (snoc c cs)
  then show ?case
    by (simp add: run_calls_snoc call_step_backoff_factor run_calls_max_backoff min_def)
qed

lemma factor_values_step: "x \<in> factor_values \<Longrightarrow> min (x * (3 / 2)) 30 \<in> factor_values"
  unfolding factor_values_def
  by (elim insertE emptyE) simp_all

lemma run_calls_factor_values:
  "backoff_factor (run_calls (AntiBot_init t0) cs) \<in> factor_values"
proof (induction cs rule: rev_induct)
  case Nil
  show ?case by (simp add: run_calls_def AntiBot_init_def factor_values_def)
next
  case (snoc c cs)
  have one: "1 \<in> factor_values" by (simp add: factor_values_def)
  show ?case
    using factor_values_step [OF snoc] one
    by (simp add: run_calls_snoc call_step_backoff_factor run_calls_max_backoff)
qed

text \<open>
  C1. For every sequence of calls to the backoff engine (sync or async, in any mix) starting
  from a fresh \<open>AntiBot\<close>, and every further call: the factor after the call is at most
  \<open>max_backoff\<close>, which is 30; a failure call (\<open>increase = True\<close>) does not decrease the
  factor; a success call (\<open>increase = False\<close>) leaves it at exactly 1.
\<close>

theorem backoff_factor_monotone_bounded_reset:
  "backoff_factor (run_calls (AntiBot_init t0) (cs @ [c]))
     \<le> max_backoff (run_calls (AntiBot_init t0) (cs @ [c])) \<and>
   max_backoff (run_calls (AntiBot_init t0) (cs @ [c])) = 30 \<and>
   (call_increase c \<longrightarrow>
      backoff_factor (run_calls (AntiBot_init t0) cs)
        \<le> backoff_factor (run_calls (AntiBot_init t0) (cs @ [c]))) \<and>
   (\<not> call_increase c \<longrightarrow>
      backoff_factor (run_calls (AntiBot_init t0) (cs @ [c])) = 1)"
proof -
  have r: "1 \<le> backoff_factor (run_calls (AntiBot_init t0) cs)"
    "backoff_factor (run_calls (AntiBot_init t0) cs) \<le> 30"
    using run_calls_factor_range [of t0 cs] by simp_all
  show ?thesis
    using r
    by (simp add: run_calls_snoc run_calls_max_backoff call_step_max_backoff
          call_step_backoff_factor min_def)
qed

theorem backoff_factor_monotone_bounded_reset_witness:
  "backoff_factor (run_calls (AntiBot_init 0) ([Sync True 0 1 1, Async True (1/2)] @ [Sync True 0 2 2]))
     \<le> max_backoff (run_calls (AntiBot_init 0) ([Sync True 0 1 1, Async True (1/2)] @ [Sync True 0 2 2])) \<and>
   call_increase (Sync True 0 2 2) \<and>
   backoff_factor (run_calls (AntiBot_init 0) [Sync True 0 1 1, Async True (1/2)]) = 9/4 \<and>
   backoff_factor (run_calls (AntiBot_init 0) ([Sync True 0 1 1, Async True (1/2)] @ [Sync True 0 2 2])) = 27/8 \<and>
   \<not> call_increase (Async False 0) \<and>
   backoff_factor (run_calls (AntiBot_init 0) ([Sync True 0 1 1, Async True (1/2)] @ [Async False 0])) = 1"
  using backoff_factor_monotone_bounded_reset [of 0 "[Sync True 0 1 1, Async True (1/2)]" "Sync True 0 2 2"]
        backoff_factor_monotone_bounded_reset [of 0 "[Sync True 0 1 1, Async True (1/2)]" "Async False 0"]
  by (simp add: run_calls_def backoff_def async_backoff_def reset_backoff_def AntiBot_init_def
        Let_def uniform_def)

lemma backoff_window_hit:
  assumes "t1 - start_time s < 60" and "request_count s + 1 > 10"
  shows "backoff s inc u t1 t2 =
           (s\<lparr>backoff_factor := (if inc then min (backoff_factor s * (3 / 2)) (max_backoff s) else 1),
              request_count := 0, start_time := t2\<rparr>,
            branch_delay s inc u + (60 - (t1 - start_time s)))"
  using assms by (simp add: backoff_def branch_delay_def reset_backoff_def Let_def)

lemma backoff_below_limit:
  assumes "request_count s + 1 \<le> 10"
  shows "request_count (fst (backoff s inc u t1 t2)) = request_count s + 1 \<and>
         start_time (fst (backoff s inc u t1 t2)) = start_time s"
  using assms by (simp add: backoff_def reset_backoff_def Let_def)

lemma backoff_seq_below_limit:
  "request_count s + int (length cs) \<le> 10 \<Longrightarrow>
   request_count (backoff_seq s cs) = request_count s + int (length cs) \<and>
   start_time (backoff_seq s cs) = start_time s"
proof (induction cs arbitrary: s)
  case Nil
  then show ?case by simp
next
  case (Cons c cs)
  have le: "request_count s + 1 \<le> 10"
    using Cons.prems by simp
  note b = backoff_below_limit [OF le, of "increase c" "draw c" "clock1 c" "clock2 c"]
  have "request_count (fst (backoff_call s c)) + int (length cs) \<le> 10"
    using Cons.prems b by (simp add: backoff_call_def)
  from Cons.IH [OF this] b show ?case
    by (simp add: backoff_call_def)
qed

text \<open>
  C3. Whenever, after the increment, the elapsed time since \<open>start_time\<close> is under 60 and
  \<open>request_count\<close> exceeds 10, the sync engine sleeps for the branch's delay plus exactly
  \<open>60 - elapsed\<close>, and leaves \<open>request_count = 0\<close> and \<open>start_time\<close> at the second clock
  reading. In particular, after ten sync calls on a fresh window (none of which can trip the
  check), an eleventh call read less than 60 after \<open>start_time\<close> gets the penalty and leaves
  \<open>request_count = 0\<close>.
\<close>

theorem backoff_rolling_window_penalty:
  "(t1 - start_time s < 60 \<and> request_count s + 1 > 10 \<longrightarrow>
      snd (backoff s inc u t1 t2) = branch_delay s inc u + (60 - (t1 - start_time s)) \<and>
      request_count (fst (backoff s inc u t1 t2)) = 0 \<and>
      start_time (fst (backoff s inc u t1 t2)) = t2) \<and>
   (request_count s = 0 \<and> length cs = 10 \<and> clock1 c - start_time s < 60 \<longrightarrow>
      request_count (backoff_seq s cs) = 10 \<and>
      snd (backoff_call (backoff_seq s cs) c)
        = branch_delay (backoff_seq s cs) (increase c) (draw c) + (60 - (clock1 c - start_time s)) \<and>
      request_count (backoff_seq s (cs @ [c])) = 0 \<and>
      start_time (backoff_seq s (cs @ [c])) = clock2 c)"
proof (intro conjI impI)
  assume h: "t1 - start_time s < 60 \<and> request_count s + 1 > 10"
  then have e: "backoff s inc u t1 t2 =
           (s\<lparr>backoff_factor := (if inc then min (backoff_factor s * (3 / 2)) (max_backoff s) else 1),
              request_count := 0, start_time := t2\<rparr>,
            branch_delay s inc u + (60 - (t1 - start_time s)))"
    using backoff_window_hit [of t1 s inc u t2] by simp
  show "snd (backoff s inc u t1 t2) = branch_delay s inc u + (60 - (t1 - start_time s))"
    by (simp add: e)
  show "request_count (fst (backoff s inc u t1 t2)) = 0"
    by (simp add: e)
  show "start_time (fst (backoff s inc u t1 t2)) = t2"
    by (simp add: e)
next
  assume h: "request_count s = 0 \<and> length cs = 10 \<and> clock1 c - start_time s < 60"
  let ?s = "backoff_seq s cs"
  have pre: "request_count ?s = 10" "start_time ?s = start_time s"
    using backoff_seq_below_limit [of s cs] h by simp_all
  have e: "backoff_call ?s c =
           (?s\<lparr>backoff_factor := (if increase c then min (backoff_factor ?s * (3 / 2)) (max_backoff ?s) else 1),
              request_count := 0, start_time := clock2 c\<rparr>,
            branch_delay ?s (increase c) (draw c) + (60 - (clock1 c - start_time ?s)))"
    unfolding backoff_call_def
    using backoff_window_hit [of "clock1 c" ?s "increase c" "draw c" "clock2 c"] pre h by simp
  have app: "backoff_seq s (cs @ [c]) = fst (backoff_call ?s c)"
    by (induction cs arbitrary: s) simp_all
  show "request_count ?s = 10" by (rule pre)
  show "snd (backoff_call ?s c)
        = branch_delay ?s (increase c) (draw c) + (60 - (clock1 c - start_time s))"
    by (simp add: e pre)
  show "request_count (backoff_seq s (cs @ [c])) = 0"
    by (simp add: app e)
  show "start_time (backoff_seq s (cs @ [c])) = clock2 c"
    by (simp add: app e)
qed

theorem backoff_rolling_window_penalty_witness:
  "(59 - start_time (AntiBot_init 0\<lparr>request_count := 10\<rparr>) < 60 \<and>
    request_count (AntiBot_init 0\<lparr>request_count := 10\<rparr>) + 1 > 10 \<and>
    snd (backoff (AntiBot_init 0\<lparr>request_count := 10\<rparr>) True 0 59 61) = 4 \<and>
    request_count (fst (backoff (AntiBot_init 0\<lparr>request_count := 10\<rparr>) True 0 59 61)) = 0 \<and>
    start_time (fst (backoff (AntiBot_init 0\<lparr>request_count := 10\<rparr>) True 0 59 61)) = 61) \<and>
   (request_count (AntiBot_init 0) = 0 \<and> length ten_calls = 10 \<and>
    clock1 \<lparr>increase = False, draw = 1/2, clock1 = 20, clock2 = 21\<rparr> - start_time (AntiBot_init 0) < 60 \<and>
    snd (backoff_call (backoff_seq (AntiBot_init 0) ten_calls)
           \<lparr>increase = False, draw = 1/2, clock1 = 20, clock2 = 21\<rparr>) = 42 \<and>
    request_count (backoff_seq (AntiBot_init 0)
           (ten_calls @ [\<lparr>increase = False, draw = 1/2, clock1 = 20, clock2 = 21\<rparr>])) = 0 \<and>
    start_time (backoff_seq (AntiBot_init 0)
           (ten_calls @ [\<lparr>increase = False, draw = 1/2, clock1 = 20, clock2 = 21\<rparr>])) = 21)"
  using backoff_rolling_window_penalty
          [of 59 "AntiBot_init 0\<lparr>request_count := 10\<rparr>" True 0 61 ten_calls
              "\<lparr>increase = False, draw = 1/2, clock1 = 20, clock2 = 21\<rparr>"]
        backoff_rolling_window_penalty
          [of 59 "AntiBot_init 0" True 0 61 ten_calls
              "\<lparr>increase = False, draw = 1/2, clock1 = 20, clock2 = 21\<rparr>"]
  by (simp add: AntiBot_init_def ten_calls_def branch_delay_def uniform_def)

text \<open>
  What the two variants share: the update of \<open>backoff_factor\<close> and the delay of the branch
  taken. The async variant has no rolling-window code at all.
\<close>

lemma async_backoff_same_factor_and_branch_delay:
  "backoff_factor (fst (async_backoff s inc u)) = backoff_factor (fst (backoff s inc u t1 t2)) \<and>
   snd (async_backoff s inc u) = branch_delay s inc u"
  by (simp add: backoff_def async_backoff_def reset_backoff_def branch_delay_def Let_def)

text \<open>
  C2. The claim asks for the same delay and the same state mutation in both variants. On a
  fresh state the sync variant counts the request and the async variant does not; on a state
  with ten requests counted, five time units into the window, the sync variant sleeps 56
  and opens a new window, the async variant sleeps 1 and leaves the window untouched.
\<close>

theorem async_backoff_skips_request_tally:
  "request_count (fst (backoff (AntiBot_init 0) False 0 5 5)) = 1 \<and>
   request_count (fst (async_backoff (AntiBot_init 0) False 0)) = 0 \<and>
   snd (backoff (AntiBot_init 0\<lparr>request_count := 10\<rparr>) False 0 5 6) = 56 \<and>
   snd (async_backoff (AntiBot_init 0\<lparr>request_count := 10\<rparr>) False 0) = 1 \<and>
   fst (backoff (AntiBot_init 0\<lparr>request_count := 10\<rparr>) False 0 5 6)
     = \<lparr>request_count = 0, start_time = 6, backoff_factor = 1, max_backoff = 30\<rparr> \<and>
   fst (async_backoff (AntiBot_init 0\<lparr>request_count := 10\<rparr>) False 0)
     = \<lparr>request_count = 10, start_time = 0, backoff_factor = 1, max_backoff = 30\<rparr>"
  by (simp add: backoff_def async_backoff_def reset_backoff_def AntiBot_init_def uniform_def Let_def)

subsection \<open>Detection heuristics\<close>




section \<open>Pagination resolver\<close>

subsection \<open>Cycle prevention in \<open>get_next_page\<close>\<close>

lemma fresh_url_not_visited:
  "fresh_url lib current_url visited_urls next_url = Some u \<Longrightarrow> u \<notin> visited_urls"
  by (auto simp: fresh_url_def split: option.splits if_splits)

lemma get_next_page_Some:
  assumes "get_next_page py lib soup current_url visited_urls = (Some u, v)"
  shows "u \<notin> visited_urls \<and> v = insert u visited_urls"
  using assms unfolding get_next_page_def
  by (auto split: option.splits dest: fresh_url_not_visited)

lemma get_next_page_None:
  assumes "get_next_page py lib soup current_url visited_urls = (None, v)"
  shows "v = visited_urls"
  using assms unfolding get_next_page_def
  by (auto split: option.splits)

text \<open>
  C4. A URL returned by \<open>get_next_page\<close> was not in \<open>visited_urls\<close> before the call and is
  in it after the call (the set grows by exactly that URL); a call that returns nothing
  leaves the set as it was. Calling again with the same page and current URL on the updated
  set gives a different URL or nothing.
\<close>

theorem get_next_page_never_revisits:
  "(get_next_page py lib soup current_url visited_urls = (Some u, v) \<longrightarrow>
      u \<notin> visited_urls \<and> u \<in> v \<and> v = insert u visited_urls \<and>
      fst (get_next_page py lib soup current_url v) \<noteq> Some u) \<and>
   (get_next_page py lib soup current_url visited_urls = (None, v) \<longrightarrow> v = visited_urls)"
proof (intro conjI impI)
  assume r: "get_next_page py lib soup current_url visited_urls = (Some u, v)"
  from get_next_page_Some [OF r]
  show "u \<notin> visited_urls" and "u \<in> v" and "v = insert u visited_urls"
    by simp_all
  show "fst (get_next_page py lib soup current_url v) \<noteq> Some u"
  proof
    assume "fst (get_next_page py lib soup current_url v) = Some u"
    then have "get_next_page py lib soup current_url v
                 = (Some u, snd (get_next_page py lib soup current_url v))"
      by (metis prod.collapse)
    from get_next_page_Some [OF this] have "u \<notin> v" by simp
    with \<open>u \<in> v\<close> show False by simp
  qed
next
  assume "get_next_page py lib soup current_url visited_urls = (None, v)"
  then show "v = visited_urls" by (rule get_next_page_None)
qed

subsection \<open>The numbered-link strategy\<close>






lemma scan_links_without_page:
  "scan_links py None ls = Found h \<Longrightarrow>
   \<exists>l \<in> set ls. \<not> str_isdigit py (link_text l) \<and>
      py_lower (link_text l) \<in> set next_words \<and> href l = h"
  by (induction ls) (auto split: if_splits option.splits)

lemma scan_containers_without_page:
  "scan_containers py soup None sels = Some h \<Longrightarrow>
   \<exists>sel \<in> set sels. \<exists>e. soup sel = Some e \<and>
     (\<exists>l \<in> set (links e). \<not> str_isdigit py (link_text l) \<and>
         py_lower (link_text l) \<in> set next_words \<and> href l = h)"
proof (induction sels)
  case Nil
  then show ?case by simp
next
  case (Cons sel sels)
  show ?case
  proof (cases "soup sel")
    case None
    with Cons show ?thesis by auto
  next
    case (Some e)
    show ?thesis
    proof (cases "scan_links py None (links e)")
      case Exhausted
      with Cons Some show ?thesis by auto
    next
      case Raised
      with Cons.prems Some show ?thesis by simp
    next
      case (Found h')
      with Cons.prems Some have "h' = h" by simp
      with Found scan_links_without_page [of py "links e" h] Some
      show ?thesis by auto
    qed
  qed
qed

subsection \<open>Evaluation on the example pages\<close>

lemma ascii_builtins_fields:
  "str_isdigit ascii_builtins = isdigit" "int_of_str ascii_builtins = py_int"
  "str_of_int ascii_builtins = py_str"
  by (simp_all add: ascii_builtins_def)

lemma py_int_examples:
  "py_int ''1'' = Some 1" "py_int ''2'' = Some 2" "py_int ''3'' = Some 3" "py_int ''7'' = Some 7"
  by (simp_all add: py_int_def py_strip_def is_space_def is_digit_def digits_to_nat_def
        digit_val_def int_max_str_digits_def)

lemma py_str_examples:
  "py_str 2 = Some ''2''" "py_str 4 = Some ''4''"
  by (simp_all add: py_str_def str_int_def str_nat.simps int_max_str_digits_def)


lemma extract_page_number_index:
  "extract_page_number ascii_builtins plain_urllib ''/catalogue/index.html'' = None"
  by (simp add: extract_page_number_def page_number_pattern_def is_digit_def
        plain_urllib_def plain_parse_qs_def)

lemma find_next_button_example:
  "find_next_button next_button_page = Some ''/catalogue/page-2.html''"
  by (simp add: find_next_button_def next_button_selectors_def next_button_page_def
        element_get_def)

lemma find_numbered_next_example_none:
  "find_numbered_next py lib next_button_page url = None"
  by (simp add: find_numbered_next_def pagination_selectors_def next_button_page_def)

lemma find_load_more_example_none:
  "find_load_more next_button_page = None"
  by (simp add: find_load_more_def load_more_selectors_def next_button_page_def)

lemma construct_example:
  "construct_next_page_url ascii_builtins plain_urllib ''/catalogue/page-1.html''
     = Some ''/catalogue/page-2.html''"
  by (simp add: construct_next_page_url_def plain_urllib_def path_patterns_def is_digit_def
        ascii_builtins_fields py_int_examples py_str_examples)

theorem get_next_page_never_revisits_witness:
  "get_next_page ascii_builtins plain_urllib next_button_page ''/catalogue/page-1.html''
     {''/catalogue/page-1.html''}
   = (Some ''/catalogue/page-2.html'', {''/catalogue/page-2.html'', ''/catalogue/page-1.html''}) \<and>
   ''/catalogue/page-2.html'' \<notin> {''/catalogue/page-1.html''} \<and>
   get_next_page ascii_builtins plain_urllib next_button_page ''/catalogue/page-1.html''
     {''/catalogue/page-2.html'', ''/catalogue/page-1.html''}
   = (None, {''/catalogue/page-2.html'', ''/catalogue/page-1.html''})"
proof -
  have j: "urljoin plain_urllib ''/catalogue/page-1.html'' ''/catalogue/page-2.html''
             = ''/catalogue/page-2.html''"
    by (simp add: plain_urllib_def)
  have first: "get_next_page ascii_builtins plain_urllib next_button_page
     ''/catalogue/page-1.html'' {''/catalogue/page-1.html''}
   = (Some ''/catalogue/page-2.html'', {''/catalogue/page-2.html'', ''/catalogue/page-1.html''})"
    by (simp add: get_next_page_def fresh_url_def find_next_button_example j)
  have second: "get_next_page ascii_builtins plain_urllib next_button_page
     ''/catalogue/page-1.html'' {''/catalogue/page-2.html'', ''/catalogue/page-1.html''}
   = (None, {''/catalogue/page-2.html'', ''/catalogue/page-1.html''})"
    by (simp add: get_next_page_def fresh_url_def find_next_button_example j
          find_numbered_next_example_none find_load_more_example_none construct_example)
  show ?thesis
    using first second
      get_next_page_never_revisits [of ascii_builtins plain_urllib next_button_page
        "''/catalogue/page-1.html''" "{''/catalogue/page-1.html''}" "''/catalogue/page-2.html''"
        "{''/catalogue/page-2.html'', ''/catalogue/page-1.html''}"]
    by simp
qed

text \<open>
  C10. When no page number can be extracted from the current URL, the numbered-link strategy
  returns nothing or the \<open>href\<close> of an anchor, inside a container found by one of the
  pagination selectors, whose text is not a digit string and is one of the "next" words once
  lowercased.
\<close>

theorem find_numbered_next_without_page_number:
  assumes "extract_page_number py lib current_url = None"
  shows "find_numbered_next py lib soup current_url = None \<or>
         (\<exists>sel \<in> set pagination_selectors. \<exists>e. soup sel = Some e \<and>
            (\<exists>l \<in> set (links e). \<not> str_isdigit py (link_text l) \<and>
                py_lower (link_text l) \<in> set next_words \<and>
                find_numbered_next py lib soup current_url = Some (href l)))"
proof (cases "find_numbered_next py lib soup current_url")
  case None
  then show ?thesis by simp
next
  case (Some h)
  then have "scan_containers py soup None pagination_selectors = Some h"
    using assms by (simp add: find_numbered_next_def)
  from scan_containers_without_page [OF this] Some show ?thesis
    by auto
qed

theorem find_numbered_next_without_page_number_witness:
  "extract_page_number ascii_builtins plain_urllib ''/catalogue/index.html'' = None \<and>
   find_numbered_next ascii_builtins plain_urllib numbered_page ''/catalogue/index.html''
     = Some ''/catalogue/following''"
proof -
  have f: "find_numbered_next ascii_builtins plain_urllib numbered_page ''/catalogue/index.html''
     = Some ''/catalogue/following''"
    by (simp add: find_numbered_next_def extract_page_number_index pagination_selectors_def
          numbered_page_def ascii_builtins_fields isdigit_def is_digit_def py_int_examples
          next_words_def py_lower_def lower_char_def)
  show ?thesis
    using f extract_page_number_index
      find_numbered_next_without_page_number [OF extract_page_number_index, of numbered_page]
    by simp
qed






subsection \<open>URL construction\<close>


subsection \<open>URL construction on paths in template form\<close>

lemma re_search_skip:
  "(\<forall>i < length pre. match_here p (drop i (pre @ rest)) = None) \<Longrightarrow>
   re_search p (pre @ rest) = re_search p rest"
proof (induction pre)
  case Nil
  show ?case by simp
next
  case (Cons c pre)
  from Cons.prems have h: "match_here p (c # pre @ rest) = None"
    by (auto dest: spec [of _ 0])
  have "\<forall>i < length pre. match_here p (drop i (pre @ rest)) = None"
  proof (intro allI impI)
    fix i assume "i < length pre"
    then have "Suc i < length (c # pre)" by simp
    with Cons.prems have "match_here p (drop (Suc i) ((c # pre) @ rest)) = None" by blast
    then show "match_here p (drop i (pre @ rest)) = None" by simp
  qed
  from Cons.IH [OF this] show ?case
    by (simp only: append_Cons re_search.simps h option.case)
qed

lemma re_sub_skip:
  "(\<forall>i < length pre. match_here p (drop i (pre @ rest)) = None) \<Longrightarrow>
   re_sub p repl (pre @ rest) = pre @ re_sub p repl rest"
proof (induction pre)
  case Nil
  show ?case by simp
next
  case (Cons c pre)
  from Cons.prems have h: "match_here p (c # pre @ rest) = None"
    by (auto dest: spec [of _ 0])
  have "\<forall>i < length pre. match_here p (drop i (pre @ rest)) = None"
  proof (intro allI impI)
    fix i assume "i < length pre"
    then have "Suc i < length (c # pre)" by simp
    with Cons.prems have "match_here p (drop (Suc i) ((c # pre) @ rest)) = None" by blast
    then show "match_here p (drop i (pre @ rest)) = None" by simp
  qed
  from Cons.IH [OF this] show ?case
    by (simp only: append_Cons re_sub.simps h option.case)
qed

lemma re_sub_at_match:
  "match_here p s = Some (g, r) \<Longrightarrow> length r < length s \<Longrightarrow>
   re_sub p repl s = repl @ re_sub p repl r"
  by (cases s) auto

lemma re_search_at_match:
  "match_here p s = Some (g, r) \<Longrightarrow> re_search p s = Some g"
  by (cases s) auto

lemma occurrences_iff:
  "i \<in> set (occurrences p s) \<longleftrightarrow> i \<le> length s \<and> match_here p (drop i s) \<noteq> None"
  by (auto simp: occurrences_def less_Suc_eq_le simp del: upt_Suc)

lemma re_search_no_occurrence:
  assumes "occurrences p s = []"
  shows "re_search p s = None"
proof -
  have none: "match_here p (drop i s) = None" if "i \<le> length s" for i
  proof -
    have "i \<notin> set (occurrences p s)" using assms by simp
    with that occurrences_iff [of i p s] show ?thesis by blast
  qed
  have "re_search p (s @ []) = re_search p []"
    by (rule re_search_skip) (simp add: none)
  moreover have "match_here p [] = None"
    using none [of "length s"] by simp
  ultimately show ?thesis by simp
qed

lemma rewrite_path_at:
  "k < length ps \<Longrightarrow> ps ! k = (pat, before, after) \<Longrightarrow>
   (\<forall>j < k. re_search (fst (ps ! j)) p = None) \<Longrightarrow>
   re_search pat p = Some g \<Longrightarrow>
   rewrite_path py ps p
     = (case int_of_str py g of
          None \<Rightarrow> ConversionError
        | Some n \<Rightarrow>
            (case str_of_int py (n + 1) of
               None \<Rightarrow> ConversionError
             | Some t \<Rightarrow> NewPath (re_sub pat (before @ t @ after) p)))"
proof (induction ps arbitrary: k)
  case Nil
  then show ?case by simp
next
  case (Cons q ps)
  obtain pat' b' a' where q: "q = (pat', b', a')" by (cases q) auto
  show ?case
  proof (cases k)
    case 0
    with Cons.prems q show ?thesis by simp
  next
    case (Suc k')
    with Cons.prems have first: "re_search pat' p = None"
      using q by (auto dest: spec [of _ 0])
    have rest: "\<forall>j < k'. re_search (fst (ps ! j)) p = None"
    proof (intro allI impI)
      fix j assume "j < k'"
      then have "Suc j < k" using Suc by simp
      with Cons.prems(3) have "re_search (fst ((q # ps) ! Suc j)) p = None" by blast
      then show "re_search (fst (ps ! j)) p = None" by simp
    qed
    from Cons.IH [of k', OF _ _ rest Cons.prems(4)] Cons.prems(1,2) Suc
    have "rewrite_path py ps p
     = (case int_of_str py g of
          None \<Rightarrow> ConversionError
        | Some n \<Rightarrow>
            (case str_of_int py (n + 1) of
               None \<Rightarrow> ConversionError
             | Some t \<Rightarrow> NewPath (re_sub pat (before @ t @ after) p)))"
      by simp
    with first q show ?thesis by simp
  qed
qed

lemma digits_run:
  "list_all P ds \<Longrightarrow> post = [] \<or> \<not> P (hd post) \<Longrightarrow>
   takeWhile P (ds @ post) = ds \<and> dropWhile P (ds @ post) = post"
proof (induction ds)
  case Nil
  then show ?case by (cases post) auto
next
  case (Cons d ds)
  then show ?case by simp
qed

text \<open>Each pattern matches its own template, capturing the number.\<close>

lemma match_template:
  assumes "(pat, before, after) \<in> set path_patterns"
    and "isdigit ds" and "after = [] \<longrightarrow> post = [] \<or> \<not> is_digit (hd post)"
  shows "match_here pat (before @ ds @ after @ post) = Some (ds, post)"
proof -
  have d: "list_all is_digit ds" and ne: "ds \<noteq> []"
    using assms(2) by (simp_all add: isdigit_def)
  have slash: "takeWhile is_digit (ds @ CHR ''/'' # post) = ds \<and>
               dropWhile is_digit (ds @ CHR ''/'' # post) = CHR ''/'' # post"
    using digits_run [OF d, of "CHR ''/'' # post"] by (simp add: is_digit_def)
  have dot: "takeWhile is_digit (ds @ CHR ''.'' # ''html'' @ post) = ds \<and>
             dropWhile is_digit (ds @ CHR ''.'' # ''html'' @ post) = CHR ''.'' # ''html'' @ post"
    using digits_run [OF d, of "CHR ''.'' # ''html'' @ post"] by (simp add: is_digit_def)
  from assms(1) consider
      "pat = [Lit ''/page'', Cls ''-_/'', Digits]" "before = ''/page-''" "after = []"
    | "pat = [Lit ''/page'', Cls ''-_/'', Digits, Lit ''/'']" "before = ''/page-''" "after = ''/''"
    | "pat = [Lit ''page'', Cls ''-_'', Digits, Lit ''.html'']" "before = ''page-''" "after = ''.html''"
    | "pat = [Lit ''p'', Digits, Lit ''.html'']" "before = ''p''" "after = ''.html''"
    by (auto simp: path_patterns_def)
  then show ?thesis
  proof cases
    case 1
    with assms(3) digits_run [OF d, of post] ne show ?thesis by simp
  next
    case 2
    with slash ne show ?thesis by simp
  next
    case 3
    with dot ne show ?thesis by simp
  next
    case 4
    with dot ne show ?thesis by simp
  qed
qed

lemma template_only_occurrence:
  assumes k: "k < length path_patterns" "path_patterns ! k = (pat, before, after)"
    and earlier: "\<forall>j < k. occurrences (fst (path_patterns ! j)) (pre @ before @ ds @ after @ post) = []"
    and ds: "isdigit ds" "after = [] \<longrightarrow> post = [] \<or> \<not> is_digit (hd post)"
    and only: "occurrences pat (pre @ before @ ds @ after @ post) = [length pre]"
  shows "rewrite_path py path_patterns (pre @ before @ ds @ after @ post)
     = (case int_of_str py ds of
          None \<Rightarrow> ConversionError
        | Some n \<Rightarrow>
            (case str_of_int py (n + 1) of
               None \<Rightarrow> ConversionError
             | Some t \<Rightarrow> NewPath (pre @ before @ t @ after @ post)))"
proof -
  let ?m = "before @ ds @ after"
  let ?p = "pre @ ?m @ post"
  have mem: "(pat, before, after) \<in> set path_patterns"
    using k by (metis nth_mem)
  have m: "match_here pat (?m @ post) = Some (ds, post)"
    using match_template [OF mem ds] by simp
  have ne: "?m \<noteq> []"
    using ds(1) by (auto simp: isdigit_def)
  then have len: "0 < length ?m"
    by blast
  have at: "i = length pre" if "i \<le> length ?p" and "match_here pat (drop i ?p) \<noteq> None" for i
  proof -
    from that have "i \<in> set (occurrences pat ?p)"
      by (simp add: occurrences_iff)
    with only show ?thesis by simp
  qed
  have before_none: "\<forall>i < length pre. match_here pat (drop i (pre @ ?m @ post)) = None"
  proof (intro allI impI)
    fix i assume "i < length pre"
    then show "match_here pat (drop i (pre @ ?m @ post)) = None"
      using at [of i] by (cases "match_here pat (drop i (pre @ ?m @ post))") auto
  qed
  have after_none: "\<forall>i < length post. match_here pat (drop i (post @ [])) = None"
  proof (intro allI impI)
    fix i assume i: "i < length post"
    have "drop (length pre + length ?m + i) ?p = drop i post"
      by simp
    moreover have "length pre + length ?m + i \<noteq> length pre"
      using len by arith
    moreover have "length pre + length ?m + i \<le> length ?p"
      using i by simp
    ultimately show "match_here pat (drop i (post @ [])) = None"
      using at [of "length pre + length ?m + i"]
      by (cases "match_here pat (drop i post)") auto
  qed
  have search: "re_search pat ?p = Some ds"
  proof -
    have "re_search pat (pre @ ?m @ post) = re_search pat (?m @ post)"
      using before_none by (rule re_search_skip)
    also have "\<dots> = Some ds"
      using m by (rule re_search_at_match)
    finally show ?thesis by simp
  qed
  have sub: "re_sub pat repl ?p = pre @ repl @ post" for repl
  proof -
    have "re_sub pat repl (pre @ ?m @ post) = pre @ re_sub pat repl (?m @ post)"
      using before_none by (rule re_sub_skip)
    also have "re_sub pat repl (?m @ post) = repl @ re_sub pat repl post"
    proof (rule re_sub_at_match [OF m])
      show "length post < length (?m @ post)"
        using len by simp
    qed
    also have "re_sub pat repl post = post"
      using re_sub_skip [OF after_none, of repl] by simp
    finally show ?thesis by simp
  qed
  have "\<forall>j < k. re_search (fst (path_patterns ! j)) ?p = None"
    using earlier re_search_no_occurrence by simp
  moreover have "re_sub pat repl (pre @ before @ ds @ after @ post) = pre @ repl @ post" for repl
    using sub [of repl] by simp
  ultimately show ?thesis
    using rewrite_path_at [OF k _ search, of py] by (simp split: option.splits)
qed




text \<open>
  On ASCII text the conversion raises beyond the digit limit: a digit string of more than
  4300 characters is matched by \<open>(\d+)\<close> and by \<open>isdigit\<close>, and \<open>int\<close> rejects it.
\<close>

lemma py_strip_digits: "list_all is_digit ds \<Longrightarrow> py_strip ds = ds"
proof -
  assume d: "list_all is_digit ds"
  have ns: "\<And>xs. list_all is_digit xs \<Longrightarrow> dropWhile is_space xs = xs"
  proof -
    fix xs assume "list_all is_digit xs"
    then show "dropWhile is_space xs = xs"
      by (cases xs) (auto simp: is_digit_def is_space_def)
  qed
  have "list_all is_digit (rev ds)"
    using d by (simp add: list_all_iff)
  then show ?thesis
    using d by (simp add: py_strip_def ns)
qed

lemma py_int_digit_limit:
  assumes "isdigit ds" and "length ds > int_max_str_digits"
  shows "py_int ds = None"
proof -
  have d: "list_all is_digit ds" and ne: "ds \<noteq> []"
    using assms(1) by (simp_all add: isdigit_def)
  have f: "filter is_digit ds = ds"
    using d by (simp add: list_all_iff)
  have h: "hd ds \<notin> set ''+-''"
    using d ne by (cases ds) (auto simp: is_digit_def)
  show ?thesis
    using assms(2) f h by (simp add: py_int_def py_strip_digits [OF d] Let_def)
qed

lemma construct_next_page_url_digit_limit:
  assumes "urlparse lib current_url = Some parsed"
    and "k < length path_patterns" and "path_patterns ! k = (pat, before, after)"
    and "path parsed = pre @ before @ ds @ after @ post"
    and "isdigit ds" and "after = [] \<longrightarrow> post = [] \<or> \<not> is_digit (hd post)"
    and "\<forall>j < k. occurrences (fst (path_patterns ! j)) (path parsed) = []"
    and "occurrences pat (path parsed) = [length pre]"
    and "length ds > int_max_str_digits"
  shows "construct_next_page_url ascii_builtins lib current_url = None"
proof -
  have "int_of_str ascii_builtins ds = None"
    using py_int_digit_limit [OF assms(5,9)] by (simp add: ascii_builtins_def)
  then have "rewrite_path ascii_builtins path_patterns (path parsed) = ConversionError"
    using template_only_occurrence
            [where pre = pre and post = post and py = ascii_builtins, OF assms(2,3) _ assms(5,6)]
          assms(4,7,8)
    by simp
  with assms(1) show ?thesis
    by (simp add: construct_next_page_url_def)
qed

text \<open>
  The second path pattern is the first one followed by \<open>/\<close>, so it matches only where the
  first one does and is never the one applied.
\<close>

lemma second_pattern_implies_first:
  "match_here [Lit ''/page'', Cls ''-_/'', Digits, Lit ''/''] s \<noteq> None \<Longrightarrow>
   match_here [Lit ''/page'', Cls ''-_/'', Digits] s \<noteq> None"
  by (auto split: if_splits list.splits option.splits)

lemma second_pattern_never_applies:
  "re_search [Lit ''/page'', Cls ''-_/'', Digits] s = None \<Longrightarrow>
   re_search [Lit ''/page'', Cls ''-_/'', Digits, Lit ''/''] s = None"
proof (induction s)
  case Nil
  show ?case by simp
next
  case (Cons c s)
  from Cons.prems have n: "match_here [Lit ''/page'', Cls ''-_/'', Digits] (c # s) = None"
    and r: "re_search [Lit ''/page'', Cls ''-_/'', Digits] s = None"
    by (auto split: option.splits)
  from n second_pattern_implies_first [of "c # s"]
  have "match_here [Lit ''/page'', Cls ''-_/'', Digits, Lit ''/''] (c # s) = None"
    by blast
  with Cons.IH [OF r] show ?case
    by (simp only: re_search.simps option.case)
qed

section \<open>Crawl loop\<close>

text \<open>
  A failed request ends the loop at once: whatever was accumulated is returned, and the
  trace grows by that one request, with no sleep and no second attempt.
\<close>

lemma scrape_loop_failed_fetch:
  assumes "url \<noteq> []"
    and "fetch (length (fetches trace)) url = TransportError \<or>
         (\<exists>status soup. fetch (length (fetches trace)) url = Response status soup \<and>
                         raise_for_status status)"
  shows "scrape_loop (Suc fuel) lib fetch max_products (Some url) products trace
           = Some (Inr products, trace @ [Fetch url])"
  using assms by auto

text \<open>
  C8. A crawl with \<open>max_products = 5\<close> whose first page has three items and a next link and
  whose second page has three items: it returns the three products of the first page and the
  first two of the second, five in all, after exactly two requests, whatever fuel beyond two
  it is given, and whatever the site would serve to a third request.
\<close>

theorem scrape_static_stops_at_max:
  assumes "url \<noteq> []"
    and "fetch 0 url = Response s1 p1" and "\<not> raise_for_status s1"
    and "items p1 = [a1, a2, a3]"
    and "extract_product lib url a1 = Inr q1"
    and "extract_product lib url a2 = Inr q2"
    and "extract_product lib url a3 = Inr q3"
    and "next_button p1 = Some (Some h)" and "urljoin lib url h = url2" and "url2 \<noteq> []"
    and "fetch 1 url2 = Response s2 p2" and "\<not> raise_for_status s2"
    and "items p2 = [b1, b2, b3]"
    and "extract_product lib url2 b1 = Inr r1"
    and "extract_product lib url2 b2 = Inr r2"
  shows "scrape_static (Suc (Suc fuel)) lib fetch url 5
           = Some (Inr [q1, q2, q3, r1, r2], [Fetch url, Sleep REQUEST_DELAY, Fetch url2]) \<and>
         length [q1, q2, q3, r1, r2] = 5 \<and>
         fetches [Fetch url, Sleep REQUEST_DELAY, Fetch url2] = [url, url2]"
proof -
  have c1: "collect_items lib url 5 (items p1) [] = Inr [q1, q2, q3]"
    using assms(4-7) by simp
  have c2: "collect_items lib url2 5 (items p2) [q1, q2, q3] = Inr [q1, q2, q3, r1, r2]"
    using assms(13-15) by simp
  have second: "scrape_loop (Suc fuel) lib fetch 5 (Some url2) [q1, q2, q3]
                  [Fetch url, Sleep REQUEST_DELAY]
                = Some (Inr [q1, q2, q3, r1, r2], [Fetch url, Sleep REQUEST_DELAY, Fetch url2])"
    using assms(10-12) c2 by simp
  have "scrape_loop (Suc (Suc fuel)) lib fetch 5 (Some url) [] []
          = scrape_loop (Suc fuel) lib fetch 5 (Some url2) [q1, q2, q3]
              [Fetch url, Sleep REQUEST_DELAY]"
    using assms(1-3,8,9) c1 by simp
  with second show ?thesis
    using assms(1) by (simp add: scrape_static_def)
qed


lemma extract_product_book:
  "\<not> is_space c \<Longrightarrow> \<not> is_space d \<Longrightarrow>
   extract_product plain_urllib url (book [c, d])
     = Inr \<lparr>product_name = [c, d], product_price = ''10.00'',
            product_link = ''/catalogue/'' @ [c, d]\<rparr>"
  by (simp add: extract_product_def book_def dict_get_def py_strip_def is_space_def
        plain_urllib_def)

theorem scrape_static_stops_at_max_witness:
  "scrape_static (Suc (Suc 0)) plain_urllib three_page_site ''/catalogue/page-1.html'' 5
     = Some (Inr [\<lparr>product_name = ''1a'', product_price = ''10.00'', product_link = ''/catalogue/1a''\<rparr>,
                  \<lparr>product_name = ''1b'', product_price = ''10.00'', product_link = ''/catalogue/1b''\<rparr>,
                  \<lparr>product_name = ''1c'', product_price = ''10.00'', product_link = ''/catalogue/1c''\<rparr>,
                  \<lparr>product_name = ''2a'', product_price = ''10.00'', product_link = ''/catalogue/2a''\<rparr>,
                  \<lparr>product_name = ''2b'', product_price = ''10.00'', product_link = ''/catalogue/2b''\<rparr>],
             [Fetch ''/catalogue/page-1.html'', Sleep REQUEST_DELAY,
              Fetch ''/catalogue/page-2.html''])"
proof -
  have h1: "''/catalogue/page-1.html'' \<noteq> []" by simp
  have h2: "three_page_site 0 ''/catalogue/page-1.html''
              = Response 200 (three_books ''1'' (Some ''/catalogue/page-2.html''))"
    by (simp add: three_page_site_def)
  have h3: "\<not> raise_for_status 200" by (simp add: raise_for_status_def)
  have h4: "items (three_books ''1'' (Some ''/catalogue/page-2.html''))
              = [book ''1a'', book ''1b'', book ''1c'']"
    by (simp add: three_books_def)
  have h5: "next_button (three_books ''1'' (Some ''/catalogue/page-2.html''))
              = Some (Some ''/catalogue/page-2.html'')"
    by (simp add: three_books_def)
  have h6: "urljoin plain_urllib ''/catalogue/page-1.html'' ''/catalogue/page-2.html''
              = ''/catalogue/page-2.html''"
    by (simp add: plain_urllib_def)
  have h7: "''/catalogue/page-2.html'' \<noteq> []" by simp
  have h8: "three_page_site 1 ''/catalogue/page-2.html''
              = Response 200 (three_books ''2'' (Some ''/catalogue/page-3.html''))"
    by (simp add: three_page_site_def)
  have h9: "items (three_books ''2'' (Some ''/catalogue/page-3.html''))
              = [book ''2a'', book ''2b'', book ''2c'']"
    by (simp add: three_books_def)
  have e: "\<And>url c d. \<not> is_space c \<Longrightarrow> \<not> is_space d \<Longrightarrow>
             extract_product plain_urllib url (book [c, d])
               = Inr \<lparr>product_name = [c, d], product_price = ''10.00'',
                      product_link = ''/catalogue/'' @ [c, d]\<rparr>"
    by (rule extract_product_book)
  have s: "\<not> is_space CHR ''1''" "\<not> is_space CHR ''2''" "\<not> is_space CHR ''a''"
    "\<not> is_space CHR ''b''" "\<not> is_space CHR ''c''"
    by (simp_all add: is_space_def)
  from scrape_static_stops_at_max
         [OF h1 h2 h3 h4 e [OF s(1) s(3)] e [OF s(1) s(4)] e [OF s(1) s(5)] h5 h6 h7 h8 h3 h9
             e [OF s(2) s(3)] e [OF s(2) s(4)], of 0]
  show ?thesis by simp
qed

text \<open>
  C7. The server answers 500 to the first request and would serve the page to a second
  one. The crawl makes one request and returns the empty list: there is no second attempt
  and no sleep between attempts.
\<close>

theorem scrape_static_gives_up_after_one_failure:
  "scrape_static (Suc fuel) plain_urllib recovering_site ''/catalogue/page-1.html'' 5
     = Some (Inr [], [Fetch ''/catalogue/page-1.html'']) \<and>
   recovering_site 1 ''/catalogue/page-1.html'' = Response 200 (three_books ''1'' None)"
  by (simp add: scrape_static_def recovering_site_def raise_for_status_def)

end
